theory Spec2Isabelle
  imports Main "HOL-Library.Word"
begin

section \<open>JavaScript values\<close>

text \<open>
  The values that flow through \<^verbatim>\<open>patchElement\<close> as \<^verbatim>\<open>any\<close>: what a property, an
  attribute or a configuration entry can hold. A number is a safe integer, given by its
  sign (true for negative) and its magnitude below \<open>2 ^ 53\<close>, so that its decimal
  digits are its string; negative zero is the magnitude 0 with the sign set. Other
  numbers (fractions, NaN, the infinities, magnitudes from \<open>2 ^ 53\<close> on), big
  integers, symbols, objects and functions are left out. A string is the list of the
  bytes of its UTF-8 form.
\<close>

datatype js_value = JUndefined | JNull | JBool bool | JNum bool "53 word" | JStr string

text \<open>What \<^verbatim>\<open>if (v)\<close> and \<^verbatim>\<open>!v\<close> test.\<close>

fun truthy :: "js_value \<Rightarrow> bool" where
  "truthy JUndefined = False"
| "truthy JNull = False"
| "truthy (JBool b) = b"
| "truthy (JNum neg m) = (m \<noteq> 0)"
| "truthy (JStr s) = (s \<noteq> [])"

definition digit_char :: "nat \<Rightarrow> char" where
  "digit_char d = ''0123456789'' ! d"

fun string_of_nat :: "nat \<Rightarrow> string" where
  "string_of_nat n =
     (if n < 10 then [digit_char n] else string_of_nat (n div 10) @ [digit_char (n mod 10)])"

declare string_of_nat.simps [simp del]

text \<open>
  String conversion, as a template literal \<^verbatim>\<open>`${v}`\<close> performs it. Both zeros print
  as \<^verbatim>\<open>0\<close>.
\<close>

fun to_string :: "js_value \<Rightarrow> string" where
  "to_string JUndefined = ''undefined''"
| "to_string JNull = ''null''"
| "to_string (JBool b) = (if b then ''true'' else ''false'')"
| "to_string (JNum neg m) =
     (if neg \<and> m \<noteq> 0 then CHR ''-'' # string_of_nat (unat m) else string_of_nat (unat m))"
| "to_string (JStr s) = s"

text \<open>
  \<^verbatim>\<open>s.split(c)\<close> for a one-character separator: the pieces between the separators,
  always at least one piece.
\<close>

fun split_on :: "char \<Rightarrow> string \<Rightarrow> string list" where
  "split_on c [] = [[]]"
| "split_on c (x # xs) =
     (if x = c then [] # split_on c xs
      else (case split_on c xs of
              [] \<Rightarrow> [[x]]
            | s # ss \<Rightarrow> (x # s) # ss))"

text \<open>
  An assignment \<^verbatim>\<open>obj[key] = true\<close> on a plain object used as a dictionary. The key
  \<^verbatim>\<open>__proto__\<close> is special: unless the object has a property of its own under that name,
  the assignment reaches the setter inherited from \<^verbatim>\<open>Object.prototype\<close>, which ignores
  a value that is neither an object nor null, and the object gets no entry.
\<close>

definition proto_key :: string where
  "proto_key = ''__proto__''"

definition obj_set_true :: "(string \<rightharpoonup> bool) \<Rightarrow> string \<Rightarrow> (string \<rightharpoonup> bool)" where
  "obj_set_true obj key =
     (if key = proto_key \<and> obj key = None then obj else obj(key \<mapsto> True))"

section \<open>Virtual nodes and the host element\<close>

text \<open>
  The fields of a virtual node that \<^verbatim>\<open>src/element/patch-element.ts\<close> reads and writes
  (\<^verbatim>\<open>sel\<close>, \<^verbatim>\<open>data.class\<close>, \<^verbatim>\<open>elm\<close>, \<^verbatim>\<open>isHost\<close>), and the children and the text
  that make it a tree. \<^verbatim>\<open>undefined\<close> is \<open>None\<close>. A host node is named by its reference,
  a natural number.
\<close>

type_synonym class_map = "string \<rightharpoonup> bool"

record vnode_data =
  class_D :: "class_map option"

datatype vnode =
  VNode (sel: "string option") (data: "vnode_data option") (children: "vnode list")
        (text_V: "string option") (elm: "nat option") (isHost: bool)

definition set_elm :: "nat \<Rightarrow> vnode \<Rightarrow> vnode" where
  "set_elm e v = VNode (sel v) (data v) (children v) (text_V v) (Some e) (isHost v)"

definition set_isHost :: "bool \<Rightarrow> vnode \<Rightarrow> vnode" where
  "set_isHost b v = VNode (sel v) (data v) (children v) (text_V v) (elm v) b"

definition set_sel :: "string option \<Rightarrow> vnode \<Rightarrow> vnode" where
  "set_sel s v = VNode s (data v) (children v) (text_V v) (elm v) (isHost v)"

definition set_data :: "vnode_data option \<Rightarrow> vnode \<Rightarrow> vnode" where
  "set_data d v = VNode (sel v) d (children v) (text_V v) (elm v) (isHost v)"

text \<open>What \<^verbatim>\<open>elm.ionNode(h)\<close> hands back: a virtual node, or a primitive value.\<close>

datatype render_result = Prim js_value | Node vnode

text \<open>
  The renderer's first argument is the retained virtual node or, on the initial patch,
  the host element itself. The renderer works on the host document, the world \<open>'w\<close>.
\<close>

datatype old_arg = OldVnode vnode | HostElm nat

type_synonym 'w renderer = "old_arg \<Rightarrow> vnode \<Rightarrow> 'w \<Rightarrow> vnode \<times> 'w"

datatype vdom_module = attributesModule | classModule | eventListenersModule | styleModule

record 'w ion_element =
  ref :: nat
  renderer_S :: "'w renderer option"
  vnode_S :: "vnode option"

text \<open>
  The collaborators of \<^verbatim>\<open>patchElement\<close> whose code is in other modules
  (\<^verbatim>\<open>ion-element\<close>, \<^verbatim>\<open>init-element\<close>, \<^verbatim>\<open>renderer/index\<close>, \<^verbatim>\<open>utils/config\<close>,
  \<^verbatim>\<open>utils/helpers\<close>) are parameters: the element's render function, \<^verbatim>\<open>initProperties\<close>
  (it acts on the element's own properties, which live in the world),
  \<^verbatim>\<open>initRenderer\<close>, \<^verbatim>\<open>DomApi.getPropOrAttr\<close>, \<^verbatim>\<open>Config.get\<close> and \<^verbatim>\<open>isDef\<close>.
\<close>

record 'w env =
  ionNode :: "'w \<Rightarrow> nat \<Rightarrow> render_result"
  initProperties :: "nat \<Rightarrow> 'w \<Rightarrow> 'w"
  initRenderer :: "vdom_module list \<Rightarrow> 'w renderer"
  getPropOrAttr :: "'w \<Rightarrow> nat \<Rightarrow> string \<Rightarrow> js_value"
  config_get :: "string \<Rightarrow> js_value \<Rightarrow> js_value"
  isDef :: "js_value \<Rightarrow> bool"

datatype js_error = TypeError

section \<open>\<^verbatim>\<open>src/element/patch-element.ts\<close>\<close>

text \<open>
  \<^verbatim>\<open>getValue(name, config, domApi, elm, fallback = null)\<close>. The default stands in
  when the argument is \<^verbatim>\<open>undefined\<close>, which is also what an omitted argument is.
\<close>

definition getValue :: "'w env \<Rightarrow> 'w \<Rightarrow> nat \<Rightarrow> string \<Rightarrow> js_value \<Rightarrow> js_value" where
  "getValue env w e name fallback_arg =
     (let fallback = (if fallback_arg = JUndefined then JNull else fallback_arg);
          val = getPropOrAttr env w e name
      in if isDef env val then val else config_get env name fallback)"

text \<open>
  The loop \<^verbatim>\<open>for (var i = 1; i < cssClasses.length; i++) dataClass[cssClasses[i]] = true\<close>,
  from the index it is entered with.
\<close>

function mergeClasses :: "string list \<Rightarrow> nat \<Rightarrow> class_map \<Rightarrow> class_map" where
  "mergeClasses cssClasses i dataClass =
     (if i < length cssClasses
      then mergeClasses cssClasses (Suc i) (obj_set_true dataClass (cssClasses ! i))
      else dataClass)"
  by pat_completeness auto
termination
  by (relation "measure (\<lambda>(cs, i, m). length cs - i)") auto

declare mergeClasses.simps [simp del]

text \<open>
  The part of \<^verbatim>\<open>patchElement\<close> between the renderer's initialisation and its call:
  the new virtual node is bound to the host element and its class map is filled. Reading
  \<^verbatim>\<open>newVnode.data.class\<close> with no \<^verbatim>\<open>data\<close>, and \<^verbatim>\<open>newVnode.sel.split\<close> with no
  \<^verbatim>\<open>sel\<close>, throw a TypeError.
\<close>

definition componentPrefix :: "string list \<Rightarrow> string" where
  "componentPrefix cssClasses =
     (if length cssClasses > 1 then cssClasses ! 1 @ ''-'' else '''')"

definition hostClasses :: "string list \<Rightarrow> js_value \<Rightarrow> js_value \<Rightarrow> class_map \<Rightarrow> class_map" where
  "hostClasses cssClasses mode color dataClass0 =
     (let dataClass1 = (if length cssClasses > 1 then mergeClasses cssClasses 1 dataClass0
                        else dataClass0);
          prefix = componentPrefix cssClasses;
          dataClass2 = obj_set_true dataClass1 (prefix @ to_string mode)
      in if truthy color
         then obj_set_true dataClass2 (prefix @ to_string mode @ ''-'' @ to_string color)
         else dataClass2)"

definition hostVnode :: "nat \<Rightarrow> js_value \<Rightarrow> js_value \<Rightarrow> vnode \<Rightarrow> js_error + vnode" where
  "hostVnode e mode color newVnode =
     (let v1 = set_isHost True (set_elm e newVnode)
      in case data v1 of
           None \<Rightarrow> Inl TypeError
         | Some d \<Rightarrow>
             (let dataClass0 = (case class_D d of None \<Rightarrow> Map.empty | Some m \<Rightarrow> m)
              in case sel v1 of
                   None \<Rightarrow> Inl TypeError
                 | Some s \<Rightarrow>
                     (let cssClasses = split_on CHR ''.'' s;
                          dataClass = hostClasses cssClasses mode color dataClass0
                      in Inr (set_data (Some (d\<lparr>class_D := Some dataClass\<rparr>))
                                (set_sel None v1)))))"

text \<open>
  How far a call of \<^verbatim>\<open>patchElement\<close> gets before its last statement: it has returned
  at the falsy render result, it has thrown, or it is about to call the renderer \<open>r\<close>
  (the element's \<^verbatim>\<open>$renderer\<close>) on the new virtual node.
\<close>

datatype 'w progress =
  Returned
| Threw js_error "'w ion_element" 'w
| Calls "'w ion_element" 'w "'w renderer" vnode

text \<open>
  The block \<^verbatim>\<open>if (!elm.$renderer) { initProperties(elm); elm.$renderer = initRenderer(...) }\<close>,
  with the four modules it registers: the element, the world and the element's renderer
  after it.
\<close>

definition registered :: "vdom_module list" where
  "registered = [attributesModule, classModule, eventListenersModule, styleModule]"

definition ensureRenderer ::
  "'w env \<Rightarrow> 'w ion_element \<Rightarrow> 'w \<Rightarrow> 'w ion_element \<times> 'w \<times> 'w renderer" where
  "ensureRenderer env el w =
     (case renderer_S el of
        None \<Rightarrow>
          (let w' = initProperties env (ref el) w;
               r' = initRenderer env registered
           in (el\<lparr>renderer_S := Some r'\<rparr>, w', r'))
      | Some r' \<Rightarrow> (el, w, r'))"

text \<open>
  \<^verbatim>\<open>patchElement\<close> up to the renderer's call. The two calls of \<^verbatim>\<open>getValue\<close> give no
  fallback. A truthy primitive in place of a virtual node passes the first test and the
  renderer's initialisation; then writing or reading its fields throws.
\<close>

definition beforeRender :: "'w env \<Rightarrow> 'w ion_element \<Rightarrow> 'w \<Rightarrow> 'w progress" where
  "beforeRender env el w =
     (case ionNode env w (ref el) of
        Prim p \<Rightarrow>
          (if \<not> truthy p then Returned
           else (let (el1, w1, r) = ensureRenderer env el w in Threw TypeError el1 w1))
      | Node newVnode \<Rightarrow>
          (let (el1, w1, r) = ensureRenderer env el w;
               mode = getValue env w1 (ref el1) ''mode'' JUndefined;
               color = getValue env w1 (ref el1) ''color'' JUndefined
           in case hostVnode (ref el1) mode color newVnode of
                Inl err \<Rightarrow> Threw err el1 w1
              | Inr hv \<Rightarrow> Calls el1 w1 r hv))"

text \<open>
  The first argument of the renderer: \<^verbatim>\<open>elm._vnode ? elm._vnode : elm\<close>.
\<close>

definition oldArg :: "'w ion_element \<Rightarrow> old_arg" where
  "oldArg el = (case vnode_S el of None \<Rightarrow> HostElm (ref el) | Some ov \<Rightarrow> OldVnode ov)"

text \<open>
  \<^verbatim>\<open>patchElement(elm)\<close> on the element \<open>el\<close> in the world \<open>w\<close>. An exception leaves
  with the state reached so far (\<open>Inl\<close>); a normal return gives the new state.
\<close>

definition patchElement ::
  "'w env \<Rightarrow> 'w ion_element \<Rightarrow> 'w \<Rightarrow>
     (js_error \<times> 'w ion_element \<times> 'w) + ('w ion_element \<times> 'w)" where
  "patchElement env el w =
     (case beforeRender env el w of
        Returned \<Rightarrow> Inr (el, w)
      | Threw err el1 w1 \<Rightarrow> Inl (err, el1, w1)
      | Calls el1 w1 r hv \<Rightarrow>
          (let (v', w2) = r (oldArg el1) hv w1
           in Inr (el1\<lparr>vnode_S := Some v'\<rparr>, w2)))"

text \<open>The class map of a virtual node, empty when it has none.\<close>

definition class_of :: "vnode \<Rightarrow> class_map" where
  "class_of v = (case data v of None \<Rightarrow> Map.empty
                 | Some d \<Rightarrow> (case class_D d of None \<Rightarrow> Map.empty | Some m \<Rightarrow> m))"

section \<open>An example element\<close>

text \<open>
  A button component on the host element 7: its render function gives the selector
  \<^verbatim>\<open>ion-button.button.large\<close> (or a primitive value, when \<open>rendered\<close> is not
  \<^verbatim>\<open>true\<close>), the element carries the given color and no mode, the configuration knows
  the mode \<^verbatim>\<open>md\<close> and no color. The world is the list of the renderer's
  calls so far.
\<close>

type_synonym call_log = "(old_arg \<times> vnode) list"

definition button_vnode :: vnode where
  "button_vnode =
     VNode (Some ''ion-button.button.large'') (Some \<lparr>class_D = None\<rparr>)
       [] None None False"

definition logging_renderer :: "call_log renderer" where
  "logging_renderer old v w = (v, w @ [(old, v)])"

definition button_env :: "js_value \<Rightarrow> js_value \<Rightarrow> call_log env" where
  "button_env rendered color =
     \<lparr>ionNode = (\<lambda>w e. if rendered = JBool True then Node button_vnode else Prim rendered),
      initProperties = (\<lambda>e w. w),
      initRenderer = (\<lambda>ms. logging_renderer),
      getPropOrAttr = (\<lambda>w e name. if name = ''color'' then color else JUndefined),
      config_get = (\<lambda>name fallback. if name = ''mode'' then JStr ''md'' else fallback),
      isDef = (\<lambda>v. v \<noteq> JUndefined \<and> v \<noteq> JNull)\<rparr>"

definition button_elm :: "call_log ion_element" where
  "button_elm = \<lparr>ref = 7, renderer_S = None, vnode_S = None\<rparr>"

text \<open>
  A component whose selector has the class segment \<^verbatim>\<open>__proto__\<close>, on the same host
  element, with no color and no mode of its own.
\<close>

definition proto_vnode :: vnode where
  "proto_vnode = VNode (Some ''x.__proto__'') (Some \<lparr>class_D = None\<rparr>) [] None None False"

definition proto_env :: "call_log env" where
  "proto_env =
     \<lparr>ionNode = (\<lambda>w e. Node proto_vnode),
      initProperties = (\<lambda>e w. w),
      initRenderer = (\<lambda>ms. logging_renderer),
      getPropOrAttr = (\<lambda>w e name. JUndefined),
      config_get = (\<lambda>name fallback. if name = ''mode'' then JStr ''md'' else fallback),
      isDef = (\<lambda>v. v \<noteq> JUndefined \<and> v \<noteq> JNull)\<rparr>"

text \<open>
  The virtual node that reaches the renderer for that component: bound to the host
  element 7, without a selector, with the one class \<^verbatim>\<open>__proto__-md\<close>.
\<close>

definition proto_host :: vnode where
  "proto_host =
     VNode None (Some \<lparr>class_D = Some [''__proto__-md'' \<mapsto> True]\<rparr>) [] None (Some 7) True"

section \<open>The engine's first render\<close>

text \<open>
  Modelled from the spec: the reconciliation engine that \<^verbatim>\<open>initRenderer\<close> builds and the
  host adapter it calls are in \<^verbatim>\<open>renderer/index\<close>, which is not among the sources. What
  follows is the spec's host adapter (create an element, create a text node, append a
  node) and step 1 of its top-level \<^verbatim>\<open>patch\<close>: given a bare host container, create the new
  subtree from scratch under that container, apply all module \<^verbatim>\<open>onCreate\<close> hooks
  recursively, and return the new tree with its host references. Steps 2 and 3 (patching
  against an old tree) are not part of this model.

  A host node is a text node (no tag) or an element. The modules own what they write on
  a host node (attributes, classes, styles, listeners): that is the module state \<open>'m\<close>,
  and a hook is a function on it. The engine keeps a log of the hooks it has invoked,
  as pairs of the module's position in the registration list and the host reference.
\<close>

record host_node =
  tagName :: "string option"
  nodeValue :: string
  childNodes :: "nat list"
  parentNode :: "nat option"

record 'm engine =
  nodes :: "nat \<rightharpoonup> host_node"
  next_ref :: nat
  mstate :: 'm
  created_log :: "(nat \<times> nat) list"

record 'm vmodule =
  onCreate :: "nat \<Rightarrow> vnode \<Rightarrow> 'm \<Rightarrow> 'm"

datatype adapter_error = NoSuchNode nat

definition createElement :: "string \<Rightarrow> 'm engine \<Rightarrow> nat \<times> 'm engine" where
  "createElement tag st =
     (next_ref st,
      st\<lparr>nodes := (nodes st)(next_ref st \<mapsto>
             \<lparr>tagName = Some tag, nodeValue = [], childNodes = [], parentNode = None\<rparr>),
         next_ref := Suc (next_ref st)\<rparr>)"

definition createTextNode :: "string \<Rightarrow> 'm engine \<Rightarrow> nat \<times> 'm engine" where
  "createTextNode txt st =
     (next_ref st,
      st\<lparr>nodes := (nodes st)(next_ref st \<mapsto>
             \<lparr>tagName = None, nodeValue = txt, childNodes = [], parentNode = None\<rparr>),
         next_ref := Suc (next_ref st)\<rparr>)"

text \<open>
  Appending \<open>c\<close> to \<open>p\<close>: \<open>c\<close> leaves the child list of the parent it has, if any, and
  becomes the last child of \<open>p\<close>. Both nodes are there when the engine appends; with one
  of them missing nothing is done.
\<close>

definition detach :: "nat \<Rightarrow> (nat \<rightharpoonup> host_node) \<Rightarrow> (nat \<rightharpoonup> host_node)" where
  "detach c ns =
     (case ns c of
        None \<Rightarrow> ns
      | Some cn \<Rightarrow>
          (case parentNode cn of
             None \<Rightarrow> ns
           | Some q \<Rightarrow>
               (case ns q of
                  None \<Rightarrow> ns(c \<mapsto> cn\<lparr>parentNode := None\<rparr>)
                | Some qn \<Rightarrow>
                    (ns(q \<mapsto> qn\<lparr>childNodes := removeAll c (childNodes qn)\<rparr>))
                      (c \<mapsto> cn\<lparr>parentNode := None\<rparr>))))"

definition appendChild :: "nat \<Rightarrow> nat \<Rightarrow> 'm engine \<Rightarrow> 'm engine" where
  "appendChild p c st =
     (let ns = detach c (nodes st)
      in case (ns p, ns c) of
           (Some pn, Some cn) \<Rightarrow>
             st\<lparr>nodes := (ns(p \<mapsto> pn\<lparr>childNodes := childNodes pn @ [c]\<rparr>))
                            (c \<mapsto> cn\<lparr>parentNode := Some p\<rparr>)\<rparr>
         | _ \<Rightarrow> st)"

text \<open>Every registered module's \<^verbatim>\<open>onCreate\<close>, in registration order, from position \<open>i\<close>.\<close>

fun invokeCreate :: "'m vmodule list \<Rightarrow> nat \<Rightarrow> nat \<Rightarrow> vnode \<Rightarrow> 'm engine \<Rightarrow> 'm engine" where
  "invokeCreate [] i r v st = st"
| "invokeCreate (m # ms) i r v st =
     invokeCreate ms (Suc i) r v
       (st\<lparr>mstate := onCreate m r v (mstate st), created_log := created_log st @ [(i, r)]\<rparr>)"

text \<open>
  A whole subtree from scratch. A node without selector is a text node. An element gets
  its host node, then its children are created and appended in order, then the modules'
  \<^verbatim>\<open>onCreate\<close> run on it, before it is inserted anywhere itself.
\<close>

fun createElm :: "'m vmodule list \<Rightarrow> vnode \<Rightarrow> 'm engine \<Rightarrow> vnode \<times> 'm engine"
  and createChildren ::
    "'m vmodule list \<Rightarrow> nat \<Rightarrow> vnode list \<Rightarrow> 'm engine \<Rightarrow> vnode list \<times> 'm engine" where
  "createElm ms (VNode s d ch t e h) st =
     (case s of
        None \<Rightarrow>
          (let (r, st1) = createTextNode (case t of None \<Rightarrow> [] | Some x \<Rightarrow> x) st
           in (VNode s d ch t (Some r) h, st1))
      | Some tag \<Rightarrow>
          (let (r, st1) = createElement tag st;
               (ch', st2) = createChildren ms r ch st1;
               v' = VNode s d ch' t (Some r) h
           in (v', invokeCreate ms 0 r v' st2)))"
| "createChildren ms p [] st = ([], st)"
| "createChildren ms p (c # cs) st =
     (let (c', st1) = createElm ms c st;
          st2 = (case elm c' of None \<Rightarrow> st1 | Some r \<Rightarrow> appendChild p r st1);
          (cs', st3) = createChildren ms p cs st2
      in (c' # cs', st3))"

text \<open>
  Step 1 of \<^verbatim>\<open>patch\<close>, for a bare host container \<open>c\<close>. The container is the host node of
  the new tree's root: \<^verbatim>\<open>patchElement\<close> has set the root's host reference to the host
  element before the call, and the tests of \<^verbatim>\<open>runtime/vdom\<close> read the root's attributes
  and its text from the host element they patch onto. The root's children are created
  from scratch under the container, and the modules' \<^verbatim>\<open>onCreate\<close> run on the root as on
  every element created. The adapter reports a container that is not a node of the host
  tree.
\<close>

definition patch_bare_host ::
  "'m vmodule list \<Rightarrow> nat \<Rightarrow> vnode \<Rightarrow> 'm engine \<Rightarrow> adapter_error + (vnode \<times> 'm engine)" where
  "patch_bare_host ms c newNode st =
     (case nodes st c of
        None \<Rightarrow> Inl (NoSuchNode c)
      | Some cn \<Rightarrow>
          (let (ch', st1) = createChildren ms c (children newNode) st;
               v' = VNode (sel newNode) (data newNode) ch' (text_V newNode) (Some c)
                      (isHost newNode)
           in Inr (v', invokeCreate ms 0 c v' st1)))"

text \<open>
  What the specification says of the result, as functions one can run: every node of a tree
  has a host reference; the tree without its host references; the tree's references in
  the order of creation; the hooks the engine owes to a created tree, as log entries and
  as their effect on the module state (for every element, children before their parent,
  each registered module's \<^verbatim>\<open>onCreate\<close> in registration order, applied to the host
  reference and the node); and the host tree under a node having the shape of the
  virtual one.
\<close>

fun populated :: "vnode \<Rightarrow> bool" where
  "populated (VNode s d ch t e h) = (e \<noteq> None \<and> list_all populated ch)"

fun unbound :: "vnode \<Rightarrow> vnode" where
  "unbound (VNode s d ch t e h) = VNode s d (map unbound ch) t None h"

fun well_formed :: "vnode \<Rightarrow> bool" where
  "well_formed (VNode s d ch t e h) = ((s = None \<longrightarrow> ch = []) \<and> list_all well_formed ch)"

fun host_refs :: "vnode \<Rightarrow> nat list" where
  "host_refs (VNode s d ch t e h) =
     (case e of None \<Rightarrow> [] | Some r \<Rightarrow> [r]) @ concat (map host_refs ch)"

fun owed_hooks :: "nat \<Rightarrow> vnode \<Rightarrow> (nat \<times> nat) list" where
  "owed_hooks n (VNode s d ch t e h) =
     concat (map (owed_hooks n) ch)
     @ (case (s, e) of (Some tag, Some r) \<Rightarrow> map (\<lambda>i. (i, r)) [0..<n] | _ \<Rightarrow> [])"

fun hooks_effect :: "'m vmodule list \<Rightarrow> vnode \<Rightarrow> 'm \<Rightarrow> 'm" where
  "hooks_effect ms (VNode s d ch t e h) m =
     (let m1 = fold (hooks_effect ms) ch m
      in case (s, e) of
           (Some tag, Some r) \<Rightarrow> fold (\<lambda>x. onCreate x r (VNode s d ch t e h)) ms m1
         | _ \<Rightarrow> m1)"

fun mirrored :: "(nat \<rightharpoonup> host_node) \<Rightarrow> nat option \<Rightarrow> vnode \<Rightarrow> bool" where
  "mirrored ns p (VNode s d ch t e h) =
     (case e of
        None \<Rightarrow> False
      | Some r \<Rightarrow>
          (case ns r of
             None \<Rightarrow> False
           | Some hn \<Rightarrow>
               tagName hn = s \<and> parentNode hn = p
               \<and> (s = None \<longrightarrow> nodeValue hn = (case t of None \<Rightarrow> [] | Some x \<Rightarrow> x))
               \<and> map elm ch = map Some (childNodes hn)
               \<and> list_all (mirrored ns (Some r)) ch))"

text \<open>The host store hands out fresh references: every node it holds is below \<open>next_ref\<close>.\<close>

definition store_ok :: "'m engine \<Rightarrow> bool" where
  "store_ok st = (\<forall>r \<in> dom (nodes st). r < next_ref st)"

text \<open>
  What creating one subtree, and creating the children of the host node \<open>p\<close>, establish:
  fresh consecutive references in creation order, every node bound, the shape of the
  virtual tree untouched, the older host nodes untouched, the host tree mirroring the
  virtual one, the hooks logged and their effect on the module state.
\<close>

definition elm_post :: "'m vmodule list \<Rightarrow> 'm engine \<Rightarrow> vnode \<Rightarrow> vnode \<Rightarrow> 'm engine \<Rightarrow> bool" where
  "elm_post ms st v v' st' =
     (next_ref st < next_ref st' \<and> store_ok st' \<and> elm v' = Some (next_ref st)
      \<and> unbound v' = unbound v \<and> populated v'
      \<and> host_refs v' = [next_ref st ..< next_ref st']
      \<and> (\<forall>r < next_ref st. nodes st' r = nodes st r)
      \<and> mirrored (nodes st') None v'
      \<and> created_log st' = created_log st @ owed_hooks (length ms) v'
      \<and> mstate st' = hooks_effect ms v' (mstate st))"

definition kids_post ::
  "'m vmodule list \<Rightarrow> 'm engine \<Rightarrow> nat \<Rightarrow> host_node \<Rightarrow> vnode list \<Rightarrow> vnode list \<Rightarrow> 'm engine \<Rightarrow> bool" where
  "kids_post ms st p pn ch ch' st' =
     (next_ref st \<le> next_ref st' \<and> store_ok st'
      \<and> map unbound ch' = map unbound ch \<and> list_all populated ch'
      \<and> concat (map host_refs ch') = [next_ref st ..< next_ref st']
      \<and> (\<forall>r < next_ref st. r \<noteq> p \<longrightarrow> nodes st' r = nodes st r)
      \<and> (\<exists>ks. nodes st' p = Some (pn\<lparr>childNodes := childNodes pn @ ks\<rparr>)
                \<and> map elm ch' = map Some ks)
      \<and> list_all (mirrored (nodes st') (Some p)) ch'
      \<and> created_log st' = created_log st @ concat (map (owed_hooks (length ms)) ch')
      \<and> mstate st' = fold (hooks_effect ms) ch' (mstate st))"

text \<open>
  An example: a list component on the host element 0, the only node of the host tree.
  Its render function gives the selector \<^verbatim>\<open>my-list.list\<close> and a list of two items. The
  four modules are recorders: the state they share is the list of the hooks that ran, each
  as the module's name and the host reference. The renderer that \<^verbatim>\<open>initRenderer\<close>
  builds from the registered names performs step 1 on a bare host element (the later
  steps are not followed here: given an old tree it hands the new one back).
\<close>

definition recorder :: "vdom_module \<Rightarrow> (vdom_module \<times> nat) list vmodule" where
  "recorder name = \<lparr>onCreate = (\<lambda>r v m. m @ [(name, r)])\<rparr>"

definition container_only :: "(vdom_module \<times> nat) list engine" where
  "container_only =
     \<lparr>nodes = [0 \<mapsto> \<lparr>tagName = Some ''my-list'', nodeValue = [], childNodes = [],
                      parentNode = None\<rparr>],
      next_ref = 1, mstate = [], created_log = []\<rparr>"

definition two_items :: vnode where
  "two_items =
     VNode (Some ''ul'') None
       [VNode (Some ''li'') None [VNode None None [] (Some ''one'') None False] None None False,
        VNode (Some ''li'') None [] None None False]
       None None False"

definition step1_renderer :: "'m vmodule list \<Rightarrow> 'm engine renderer" where
  "step1_renderer ms old v st =
     (case old of
        HostElm c \<Rightarrow> (case patch_bare_host ms c v st of Inl err \<Rightarrow> (v, st) | Inr x \<Rightarrow> x)
      | OldVnode ov \<Rightarrow> (v, st))"

definition list_env :: "(vdom_module \<times> nat) list engine env" where
  "list_env =
     \<lparr>ionNode = (\<lambda>w e. Node (VNode (Some ''my-list.list'')
                               (Some \<lparr>class_D = None\<rparr>) [two_items]
                               None None False)),
      initProperties = (\<lambda>e w. w),
      initRenderer = (\<lambda>mods. step1_renderer (map recorder mods)),
      getPropOrAttr = (\<lambda>w e name. JUndefined),
      config_get = (\<lambda>name fallback. if name = ''mode'' then JStr ''md'' else fallback),
      isDef = (\<lambda>v. v \<noteq> JUndefined \<and> v \<noteq> JNull)\<rparr>"

definition list_elm :: "(vdom_module \<times> nat) list engine ion_element" where
  "list_elm = \<lparr>ref = 0, renderer_S = None, vnode_S = None\<rparr>"

section \<open>Helper facts\<close>

lemma split_on_nonempty: "split_on c s \<noteq> []"
  by (induction s) (auto split: list.splits)

lemma obj_set_true_lookup:
  "obj_set_true m key k =
     (if k = key \<and> (k = proto_key \<longrightarrow> m k \<noteq> None) then Some True else m k)"
  by (auto simp: obj_set_true_def)

lemma mergeClasses_lookup:
  "mergeClasses cs i m k =
     (if k \<in> set (drop i cs) \<and> (k = proto_key \<longrightarrow> m k \<noteq> None) then Some True else m k)"
proof (induction cs i m rule: mergeClasses.induct)
  case (1 cs i m)
  show ?case
  proof (cases "i < length cs")
    case True
    then have d: "drop i cs = cs ! i # drop (Suc i) cs"
      by (simp add: Cons_nth_drop_Suc)
    have IH:
      "mergeClasses cs (Suc i) (obj_set_true m (cs ! i)) k =
         (if k \<in> set (drop (Suc i) cs)
             \<and> (k = proto_key \<longrightarrow> obj_set_true m (cs ! i) k \<noteq> None)
          then Some True else obj_set_true m (cs ! i) k)"
      by (rule "1.IH" [OF True])
    have step: "mergeClasses cs i m k = mergeClasses cs (Suc i) (obj_set_true m (cs ! i)) k"
      using True by (subst mergeClasses.simps) simp
    have mem: "k \<in> set (drop i cs) \<longleftrightarrow> k = cs ! i \<or> k \<in> set (drop (Suc i) cs)"
      by (simp add: d)
    show ?thesis
      unfolding step IH mem obj_set_true_lookup by auto
  next
    case False
    then show ?thesis
      by (subst mergeClasses.simps) simp
  qed
qed

lemma hostClasses_lookup:
  "hostClasses cs mode color m k =
     (if (k \<in> set (tl cs)
          \<or> k = componentPrefix cs @ to_string mode
          \<or> (truthy color \<and> k = componentPrefix cs @ to_string mode @ ''-'' @ to_string color))
         \<and> (k = proto_key \<longrightarrow> m k \<noteq> None)
      then Some True else m k)"
proof -
  define d1 where "d1 = (if length cs > 1 then mergeClasses cs 1 m else m)"
  define key1 where "key1 = componentPrefix cs @ to_string mode"
  define key2 where "key2 = componentPrefix cs @ to_string mode @ ''-'' @ to_string color"
  have tl_empty: "tl cs = []" if "\<not> length cs > 1"
    using that by (cases cs) auto
  have l1: "d1 k = (if k \<in> set (tl cs) \<and> (k = proto_key \<longrightarrow> m k \<noteq> None)
                    then Some True else m k)"
    by (simp add: d1_def mergeClasses_lookup drop_Suc tl_empty)
  have l2: "obj_set_true d1 key1 k =
              (if (k \<in> set (tl cs) \<or> k = key1) \<and> (k = proto_key \<longrightarrow> m k \<noteq> None)
               then Some True else m k)"
    unfolding obj_set_true_lookup l1 by auto
  have l3: "obj_set_true (obj_set_true d1 key1) key2 k =
              (if (k \<in> set (tl cs) \<or> k = key1 \<or> k = key2) \<and> (k = proto_key \<longrightarrow> m k \<noteq> None)
               then Some True else m k)"
    unfolding obj_set_true_lookup [of "obj_set_true d1 key1"] l2 by auto
  have hc: "hostClasses cs mode color m =
          (if truthy color then obj_set_true (obj_set_true d1 key1) key2
           else obj_set_true d1 key1)"
    by (simp add: hostClasses_def Let_def d1_def key1_def key2_def)
  show ?thesis
  proof (cases "truthy color")
    case True
    then have "hostClasses cs mode color m k = obj_set_true (obj_set_true d1 key1) key2 k"
      by (simp add: hc)
    also note l3
    finally show ?thesis
      using True by (simp add: key1_def key2_def)
  next
    case False
    then have "hostClasses cs mode color m k = obj_set_true d1 key1 k"
      by (simp add: hc)
    also note l2
    finally show ?thesis
      using False by (simp add: key1_def key2_def)
  qed
qed

lemma hostVnode_Inr:
  assumes "hostVnode e mode color nv = Inr hv"
  obtains d s where "data nv = Some d" and "sel nv = Some s"
    and "hv = VNode None
                (Some (d\<lparr>class_D := Some (hostClasses (split_on CHR ''.'' s) mode color
                     (case class_D d of None \<Rightarrow> Map.empty | Some m \<Rightarrow> m))\<rparr>))
                (children nv) (text_V nv) (Some e) True"
  using assms
  by (auto simp: hostVnode_def Let_def set_isHost_def set_elm_def set_sel_def set_data_def
           split: option.splits)

lemma ensureRenderer_fields:
  assumes "ensureRenderer env el w = (el1, w1, r)"
  shows "ref el1 = ref el" and "vnode_S el1 = vnode_S el" and "renderer_S el1 = Some r"
    and "w1 = (case renderer_S el of None \<Rightarrow> initProperties env (ref el) w | Some r' \<Rightarrow> w)"
  using assms by (auto simp: ensureRenderer_def Let_def split: option.splits)

lemma beforeRender_Calls:
  assumes "beforeRender env el w = Calls el1 w1 r hv"
  obtains nv where "ionNode env w (ref el) = Node nv"
    and "ensureRenderer env el w = (el1, w1, r)"
    and "ref el1 = ref el"
    and "vnode_S el1 = vnode_S el"
    and "renderer_S el1 = Some r"
    and "hostVnode (ref el) (getValue env w1 (ref el) ''mode'' JUndefined)
            (getValue env w1 (ref el) ''color'' JUndefined) nv = Inr hv"
proof (cases "ionNode env w (ref el)")
  case (Prim p)
  with assms show ?thesis
    by (simp add: beforeRender_def split: if_splits prod.splits)
next
  case (Node nv)
  obtain el' w' r' where er: "ensureRenderer env el w = (el', w', r')"
    by (cases "ensureRenderer env el w") auto
  note f = ensureRenderer_fields [OF er]
  from assms Node er f(1) have "el' = el1" "w' = w1" "r' = r"
    and "hostVnode (ref el) (getValue env w1 (ref el) ''mode'' JUndefined)
            (getValue env w1 (ref el) ''color'' JUndefined) nv = Inr hv"
    by (auto simp: beforeRender_def Let_def split: sum.splits)
  with Node er f that [of nv] show ?thesis
    by simp
qed

lemma beforeRender_children:
  assumes "beforeRender env el w = Calls el1 w1 r hv"
  shows "\<exists>nv. ionNode env w (ref el) = Node nv \<and> children hv = children nv"
proof -
  from assms obtain nv where nv: "ionNode env w (ref el) = Node nv"
    and hvn: "hostVnode (ref el) (getValue env w1 (ref el) ''mode'' JUndefined)
                (getValue env w1 (ref el) ''color'' JUndefined) nv = Inr hv"
    by (rule beforeRender_Calls)
  from hvn have "children hv = children nv"
    by (rule hostVnode_Inr) simp
  with nv show ?thesis
    by blast
qed

lemma componentPrefix_first_class:
  "componentPrefix (split_on c s)
     = (case tl (split_on c s) of [] \<Rightarrow> [] | x # xs \<Rightarrow> x @ ''-'')"
  using split_on_nonempty [of c s]
  by (cases "split_on c s"; cases "tl (split_on c s)") (auto simp: componentPrefix_def)

lemma getValue_no_fallback:
  "getValue env w e name JUndefined =
     (if isDef env (getPropOrAttr env w e name) then getPropOrAttr env w e name
      else config_get env name JNull)"
  by (simp add: getValue_def)

lemma beforeRender_class_of:
  assumes "beforeRender env el w = Calls el1 w1 r hv"
  obtains nv s where "ionNode env w (ref el) = Node nv" and "sel nv = Some s"
    and "elm hv = Some (ref el)" and "isHost hv" and "sel hv = None"
    and "class_of hv = hostClasses (split_on CHR ''.'' s)
                         (getValue env w1 (ref el) ''mode'' JUndefined)
                         (getValue env w1 (ref el) ''color'' JUndefined) (class_of nv)"
proof -
  from assms obtain nv where nv: "ionNode env w (ref el) = Node nv"
    and hvn: "hostVnode (ref el) (getValue env w1 (ref el) ''mode'' JUndefined)
                (getValue env w1 (ref el) ''color'' JUndefined) nv = Inr hv"
    by (rule beforeRender_Calls)
  from hvn obtain d s where d: "data nv = Some d" and s: "sel nv = Some s"
    and hv: "hv = VNode None
                (Some (d\<lparr>class_D := Some (hostClasses (split_on CHR ''.'' s)
                     (getValue env w1 (ref el) ''mode'' JUndefined)
                     (getValue env w1 (ref el) ''color'' JUndefined)
                     (case class_D d of None \<Rightarrow> Map.empty | Some m \<Rightarrow> m))\<rparr>))
                (children nv) (text_V nv) (Some (ref el)) True"
    by (rule hostVnode_Inr)
  have old: "class_of nv = (case class_D d of None \<Rightarrow> Map.empty | Some m \<Rightarrow> m)"
    by (simp add: class_of_def d)
  have cls: "class_of hv = hostClasses (split_on CHR ''.'' s)
                     (getValue env w1 (ref el) ''mode'' JUndefined)
                     (getValue env w1 (ref el) ''color'' JUndefined) (class_of nv)"
    unfolding old by (simp add: hv class_of_def)
  have flds: "elm hv = Some (ref el)" "isHost hv" "sel hv = None"
    by (simp_all add: hv)
  from nv s flds cls show thesis
    by (rule that)
qed

section \<open>A falsy render result\<close>

text \<open>
  Claim C9. When the element's render function \<^verbatim>\<open>ionNode(h)\<close> returns a falsy value,
  \<^verbatim>\<open>patchElement\<close> returns normally and at once, before the renderer's initialisation:
  the element (its \<^verbatim>\<open>$renderer\<close> and its retained \<^verbatim>\<open>_vnode\<close> among its fields) and the
  world (the host document, the element's properties) are what they were.
\<close>

theorem patchElement_falsy_node_no_effect:
  assumes "ionNode env w (ref el) = Prim p" and "\<not> truthy p"
  shows "beforeRender env el w = Returned \<and> patchElement env el w = Inr (el, w)"
  using assms by (simp add: patchElement_def beforeRender_def)

theorem patchElement_falsy_node_no_effect_witness:
  "ionNode (button_env JNull JUndefined) [] (ref button_elm) = Prim JNull \<and> \<not> truthy JNull
   \<and> beforeRender (button_env JNull JUndefined) button_elm [] = Returned
   \<and> patchElement (button_env JNull JUndefined) button_elm [] = Inr (button_elm, [])"
  using patchElement_falsy_node_no_effect [of "button_env JNull JUndefined" "[]" button_elm JNull]
  by (simp add: button_env_def)

section \<open>The host virtual node handed to the renderer\<close>

text \<open>
  Whenever \<^verbatim>\<open>patchElement\<close> reaches the renderer, the call it makes is
  \<^verbatim>\<open>elm.$renderer(elm._vnode ? elm._vnode : elm, newVnode)\<close> on a new node whose \<^verbatim>\<open>elm\<close>
  is the host element, whose \<^verbatim>\<open>isHost\<close> is true and whose \<^verbatim>\<open>sel\<close> is undefined. In its
  class map every class segment of the render function's selector other than
  \<^verbatim>\<open>__proto__\<close> is true, and so are the mode class and, for a truthy color, the mode-color
  class, with the same exception; both are prefixed with the first class segment and a
  dash (with nothing when the selector has no class segment).
\<close>

lemma host_vnode_normalized:
  assumes "beforeRender env el w = Calls el1 w1 r hv"
  shows "patchElement env el w =
           (case r (oldArg el1) hv w1 of (v', w2) \<Rightarrow> Inr (el1\<lparr>vnode_S := Some v'\<rparr>, w2))
         \<and> elm hv = Some (ref el) \<and> isHost hv \<and> sel hv = None
         \<and> (\<exists>nv s prefix mode color. ionNode env w (ref el) = Node nv \<and> sel nv = Some s
              \<and> prefix = (case tl (split_on CHR ''.'' s) of [] \<Rightarrow> [] | c # cs \<Rightarrow> c @ ''-'')
              \<and> mode = getValue env w1 (ref el) ''mode'' JUndefined
              \<and> color = getValue env w1 (ref el) ''color'' JUndefined
              \<and> (\<forall>c \<in> set (tl (split_on CHR ''.'' s)).
                    c \<noteq> proto_key \<longrightarrow> class_of hv c = Some True)
              \<and> (prefix @ to_string mode \<noteq> proto_key \<longrightarrow>
                    class_of hv (prefix @ to_string mode) = Some True)
              \<and> (truthy color \<longrightarrow>
                    prefix @ to_string mode @ ''-'' @ to_string color \<noteq> proto_key \<longrightarrow>
                    class_of hv (prefix @ to_string mode @ ''-'' @ to_string color)
                      = Some True))"
proof -
  from assms obtain nv s where nv: "ionNode env w (ref el) = Node nv" and s: "sel nv = Some s"
    and flds: "elm hv = Some (ref el)" "isHost hv" "sel hv = None"
    and cls: "class_of hv = hostClasses (split_on CHR ''.'' s)
                         (getValue env w1 (ref el) ''mode'' JUndefined)
                         (getValue env w1 (ref el) ''color'' JUndefined) (class_of nv)"
    by (rule beforeRender_class_of)
  have call: "patchElement env el w =
           (case r (oldArg el1) hv w1 of (v', w2) \<Rightarrow> Inr (el1\<lparr>vnode_S := Some v'\<rparr>, w2))"
    using assms by (simp add: patchElement_def)
  show ?thesis
    using call nv s flds
    by (simp add: cls hostClasses_lookup componentPrefix_first_class [symmetric])
qed

text \<open>
  Claim C8. Every class segment of the selector is to become a true entry of the class
  map handed to the renderer. The code writes each segment with
  \<^verbatim>\<open>dataClass[cssClasses[i]] = true\<close> on a plain object, and for the segment \<^verbatim>\<open>__proto__\<close>
  that assignment makes no entry. For the selector \<^verbatim>\<open>x.__proto__\<close>, whose only class
  segment is \<^verbatim>\<open>__proto__\<close>, and the mode \<^verbatim>\<open>md\<close>, \<^verbatim>\<open>patchElement\<close> calls the renderer on a
  node whose class map holds the mode class \<^verbatim>\<open>__proto__-md\<close> and no entry for the class
  segment.
\<close>

theorem patchElement_drops_proto_class_segment:
  "ionNode proto_env [] (ref button_elm) = Node proto_vnode
   \<and> sel proto_vnode = Some ''x.__proto__''
   \<and> tl (split_on CHR ''.'' ''x.__proto__'') = [''__proto__'']
   \<and> getValue proto_env [] (ref button_elm) ''mode'' JUndefined = JStr ''md''
   \<and> beforeRender proto_env button_elm []
        = Calls (button_elm\<lparr>renderer_S := Some logging_renderer\<rparr>) [] logging_renderer
            proto_host
   \<and> patchElement proto_env button_elm []
        = Inr (button_elm\<lparr>renderer_S := Some logging_renderer, vnode_S := Some proto_host\<rparr>,
               [(HostElm 7, proto_host)])
   \<and> class_of proto_host ''__proto__'' = None
   \<and> class_of proto_host ''__proto__-md'' = Some True"
proof -
  have hc: "hostClasses [''x'', ''__proto__''] (JStr ''md'') JNull Map.empty
              = [''__proto__-md'' \<mapsto> True]"
    by (rule ext) (simp add: hostClasses_lookup componentPrefix_def proto_key_def)
  have b: "beforeRender proto_env button_elm []
        = Calls (button_elm\<lparr>renderer_S := Some logging_renderer\<rparr>) [] logging_renderer
            proto_host"
    by (simp add: beforeRender_def ensureRenderer_def proto_env_def button_elm_def
          proto_vnode_def hostVnode_def getValue_def Let_def set_isHost_def set_elm_def
          set_sel_def set_data_def hc proto_host_def)
  have p: "patchElement proto_env button_elm []
        = Inr (button_elm\<lparr>renderer_S := Some logging_renderer, vnode_S := Some proto_host\<rparr>,
               [(HostElm 7, proto_host)])"
    using b by (simp add: patchElement_def logging_renderer_def oldArg_def button_elm_def)
  have io: "ionNode proto_env [] (ref button_elm) = Node proto_vnode"
    and sl: "sel proto_vnode = Some ''x.__proto__''"
    and sp: "tl (split_on CHR ''.'' ''x.__proto__'') = [''__proto__'']"
    and gm: "getValue proto_env [] (ref button_elm) ''mode'' JUndefined = JStr ''md''"
    by (simp_all add: proto_env_def proto_vnode_def getValue_def)
  have c: "class_of proto_host ''__proto__'' = None"
    "class_of proto_host ''__proto__-md'' = Some True"
    by (simp_all add: class_of_def proto_host_def)
  from io sl sp gm b p c show ?thesis
    by simp
qed

section \<open>Mode and color\<close>

text \<open>
  Claim C10. \<^verbatim>\<open>getValue(name, config, dom, elm)\<close> is the element's own property or
  attribute value when \<^verbatim>\<open>isDef\<close> holds of it, and the configuration's value only
  otherwise, looked up with the default \<^verbatim>\<open>null\<close> when the caller gives no fallback.
  \<^verbatim>\<open>patchElement\<close> resolves the mode and the color this way, without a fallback. The
  class map it hands to the renderer is the render function's class map with these
  entries set to true and no other change: the class segments of the selector, the mode
  class, and the mode-color class when the resolved color is truthy (an assignment under
  the name \<^verbatim>\<open>__proto__\<close> makes an entry only where the map had one). With a falsy color
  the class map is what the class segments and the mode class alone make of it: no
  mode-color entry is written.
\<close>

theorem getValue_element_value_else_config:
  assumes "beforeRender env el w = Calls el1 w1 r hv"
  shows "getValue env w0 e name fb =
           (if isDef env (getPropOrAttr env w0 e name) then getPropOrAttr env w0 e name
            else config_get env name (if fb = JUndefined then JNull else fb))
         \<and> (\<exists>nv s mode color prefix.
               ionNode env w (ref el) = Node nv \<and> sel nv = Some s
             \<and> mode = (if isDef env (getPropOrAttr env w1 (ref el) ''mode'')
                        then getPropOrAttr env w1 (ref el) ''mode''
                        else config_get env ''mode'' JNull)
             \<and> color = (if isDef env (getPropOrAttr env w1 (ref el) ''color'')
                         then getPropOrAttr env w1 (ref el) ''color''
                         else config_get env ''color'' JNull)
             \<and> prefix = (case tl (split_on CHR ''.'' s) of [] \<Rightarrow> [] | c # cs \<Rightarrow> c @ ''-'')
             \<and> (\<forall>k. class_of hv k =
                   (if (k \<in> set (tl (split_on CHR ''.'' s))
                        \<or> k = prefix @ to_string mode
                        \<or> (truthy color \<and> k = prefix @ to_string mode @ ''-'' @ to_string color))
                       \<and> (k = proto_key \<longrightarrow> class_of nv k \<noteq> None)
                    then Some True else class_of nv k))
             \<and> (\<not> truthy color \<longrightarrow>
                   (\<forall>k. class_of hv k =
                      (if (k \<in> set (tl (split_on CHR ''.'' s)) \<or> k = prefix @ to_string mode)
                          \<and> (k = proto_key \<longrightarrow> class_of nv k \<noteq> None)
                       then Some True else class_of nv k))))"
proof -
  from assms obtain nv s where nv: "ionNode env w (ref el) = Node nv" and s: "sel nv = Some s"
    and cls: "class_of hv = hostClasses (split_on CHR ''.'' s)
                         (getValue env w1 (ref el) ''mode'' JUndefined)
                         (getValue env w1 (ref el) ''color'' JUndefined) (class_of nv)"
    by (rule beforeRender_class_of)
  have gv: "getValue env w0 e name fb =
           (if isDef env (getPropOrAttr env w0 e name) then getPropOrAttr env w0 e name
            else config_get env name (if fb = JUndefined then JNull else fb))"
    by (simp add: getValue_def Let_def)
  show ?thesis
    using nv s gv
    by (simp add: cls hostClasses_lookup componentPrefix_first_class [symmetric]
          getValue_no_fallback)
qed

theorem getValue_element_value_else_config_witness:
  "\<exists>hv hv'.
     beforeRender (button_env (JBool True) JUndefined) button_elm []
        = Calls (button_elm\<lparr>renderer_S := Some logging_renderer\<rparr>) [] logging_renderer hv
   \<and> getValue (button_env (JBool True) JUndefined) [] 7 ''mode'' JUndefined = JStr ''md''
   \<and> getValue (button_env (JBool True) JUndefined) [] 7 ''color'' JUndefined = JNull
   \<and> \<not> truthy JNull
   \<and> class_of hv ''button'' = Some True
   \<and> class_of hv ''large'' = Some True
   \<and> class_of hv ''button-md'' = Some True
   \<and> class_of hv ''button-md-null'' = None
   \<and> beforeRender (button_env (JBool True) (JStr ''dark'')) button_elm []
        = Calls (button_elm\<lparr>renderer_S := Some logging_renderer\<rparr>) [] logging_renderer hv'
   \<and> getValue (button_env (JBool True) (JStr ''dark'')) [] 7 ''color'' JUndefined = JStr ''dark''
   \<and> class_of hv' ''button-md'' = Some True
   \<and> class_of hv' ''button-md-dark'' = Some True
   \<and> class_of hv' ''ion-button'' = None
   \<and> (\<exists>hv0. beforeRender (button_env (JBool True) (JNum False 0)) button_elm []
          = Calls (button_elm\<lparr>renderer_S := Some logging_renderer\<rparr>) [] logging_renderer hv0
        \<and> getValue (button_env (JBool True) (JNum False 0)) [] 7 ''color'' JUndefined
            = JNum False 0
        \<and> \<not> truthy (JNum False 0)
        \<and> class_of hv0 ''button-md'' = Some True
        \<and> class_of hv0 ''button-md-0'' = None)
   \<and> (\<exists>hv7. beforeRender (button_env (JBool True) (JNum False 7)) button_elm []
          = Calls (button_elm\<lparr>renderer_S := Some logging_renderer\<rparr>) [] logging_renderer hv7
        \<and> class_of hv7 ''button-md-7'' = Some True)"
proof -
  obtain hv where b: "beforeRender (button_env (JBool True) JUndefined) button_elm []
          = Calls (button_elm\<lparr>renderer_S := Some logging_renderer\<rparr>) [] logging_renderer hv"
    by (simp add: beforeRender_def ensureRenderer_def button_env_def button_elm_def
          button_vnode_def hostVnode_def getValue_def Let_def set_isHost_def set_elm_def)
  obtain hv' where b': "beforeRender (button_env (JBool True) (JStr ''dark'')) button_elm []
          = Calls (button_elm\<lparr>renderer_S := Some logging_renderer\<rparr>) [] logging_renderer hv'"
    by (simp add: beforeRender_def ensureRenderer_def button_env_def button_elm_def
          button_vnode_def hostVnode_def getValue_def Let_def set_isHost_def set_elm_def)
  obtain hv0 where b0: "beforeRender (button_env (JBool True) (JNum False 0)) button_elm []
          = Calls (button_elm\<lparr>renderer_S := Some logging_renderer\<rparr>) [] logging_renderer hv0"
    by (simp add: beforeRender_def ensureRenderer_def button_env_def button_elm_def
          button_vnode_def hostVnode_def getValue_def Let_def set_isHost_def set_elm_def)
  obtain hv7 where b7: "beforeRender (button_env (JBool True) (JNum False 7)) button_elm []
          = Calls (button_elm\<lparr>renderer_S := Some logging_renderer\<rparr>) [] logging_renderer hv7"
    by (simp add: beforeRender_def ensureRenderer_def button_env_def button_elm_def
          button_vnode_def hostVnode_def getValue_def Let_def set_isHost_def set_elm_def)
  have g0: "getValue (button_env (JBool True) (JNum False 0)) [] 7 ''color'' JUndefined
              = JNum False 0"
    by (simp add: getValue_def button_env_def)
  have s0: "string_of_nat 0 = ''0''" and s7: "string_of_nat 7 = ''7''"
    by (simp_all add: string_of_nat.simps digit_char_def)
  have sp: "split_on CHR ''.'' ''ion-button.button.large'' = [''ion-button'', ''button'', ''large'']"
    by simp
  have gm: "getValue (button_env (JBool True) JUndefined) [] 7 ''mode'' JUndefined = JStr ''md''"
    and gc: "getValue (button_env (JBool True) JUndefined) [] 7 ''color'' JUndefined = JNull"
    and gc': "getValue (button_env (JBool True) (JStr ''dark'')) [] 7 ''color'' JUndefined
                = JStr ''dark''"
    by (simp_all add: getValue_def button_env_def)
  have env: "isDef (button_env (JBool True) c) = (\<lambda>v. v \<noteq> JUndefined \<and> v \<noteq> JNull)"
    "getPropOrAttr (button_env (JBool True) c)
       = (\<lambda>w e name. if name = ''color'' then c else JUndefined)"
    "config_get (button_env (JBool True) c)
       = (\<lambda>name fallback. if name = ''mode'' then JStr ''md'' else fallback)"
    "ionNode (button_env (JBool True) c) [] 7 = Node button_vnode" for c
    by (simp_all add: button_env_def)
  have r7: "ref button_elm = 7"
    by (simp add: button_elm_def)
  have nocls: "class_of button_vnode = Map.empty"
    by (simp add: class_of_def button_vnode_def)
  have sl: "sel button_vnode = Some ''ion-button.button.large''"
    by (simp add: button_vnode_def)
  from getValue_element_value_else_config [OF b, of "[]" 7 "''mode''" JUndefined]
  have 1: "class_of hv ''button'' = Some True \<and> class_of hv ''large'' = Some True
         \<and> class_of hv ''button-md'' = Some True \<and> class_of hv ''button-md-null'' = None"
    by (simp add: r7 env sl sp nocls proto_key_def)
  from getValue_element_value_else_config [OF b', of "[]" 7 "''color''" JUndefined]
  have 2: "class_of hv' ''button-md'' = Some True \<and> class_of hv' ''button-md-dark'' = Some True
         \<and> class_of hv' ''ion-button'' = None"
    by (simp add: r7 env sl sp nocls proto_key_def)
  from getValue_element_value_else_config [OF b0, of "[]" 7 "''color''" JUndefined]
  have 3: "class_of hv0 ''button-md'' = Some True \<and> class_of hv0 ''button-md-0'' = None"
    by (simp add: r7 env sl sp nocls proto_key_def s0)
  from getValue_element_value_else_config [OF b7, of "[]" 7 "''color''" JUndefined]
  have 4: "class_of hv7 ''button-md-7'' = Some True"
    by (simp add: r7 env sl sp nocls proto_key_def s7)
  from b0 g0 3 have 5: "\<exists>hv0. beforeRender (button_env (JBool True) (JNum False 0)) button_elm []
          = Calls (button_elm\<lparr>renderer_S := Some logging_renderer\<rparr>) [] logging_renderer hv0
        \<and> getValue (button_env (JBool True) (JNum False 0)) [] 7 ''color'' JUndefined
            = JNum False 0
        \<and> \<not> truthy (JNum False 0)
        \<and> class_of hv0 ''button-md'' = Some True
        \<and> class_of hv0 ''button-md-0'' = None"
    by auto
  from b7 4 have 6: "\<exists>hv7. beforeRender (button_env (JBool True) (JNum False 7)) button_elm []
          = Calls (button_elm\<lparr>renderer_S := Some logging_renderer\<rparr>) [] logging_renderer hv7
        \<and> class_of hv7 ''button-md-7'' = Some True"
    by auto
  from b b' gm gc gc' 1 2 5 6 show ?thesis
    by (intro exI [of _ hv] exI [of _ hv']) simp
qed

section \<open>First render\<close>

lemma createElement_simps:
  "createElement tag st = (r, st') \<Longrightarrow>
     r = next_ref st \<and> next_ref st' = Suc (next_ref st)
     \<and> nodes st' = (nodes st)(next_ref st \<mapsto>
             \<lparr>tagName = Some tag, nodeValue = [], childNodes = [], parentNode = None\<rparr>)
     \<and> created_log st' = created_log st \<and> mstate st' = mstate st"
  by (auto simp: createElement_def)

lemma createTextNode_simps:
  "createTextNode txt st = (r, st') \<Longrightarrow>
     r = next_ref st \<and> next_ref st' = Suc (next_ref st)
     \<and> nodes st' = (nodes st)(next_ref st \<mapsto>
             \<lparr>tagName = None, nodeValue = txt, childNodes = [], parentNode = None\<rparr>)
     \<and> created_log st' = created_log st \<and> mstate st' = mstate st"
  by (auto simp: createTextNode_def)

lemma appendChild_fresh:
  assumes "nodes st p = Some pn" and "nodes st c = Some cn" and "parentNode cn = None"
    and "p \<noteq> c"
  shows "nodes (appendChild p c st)
           = (nodes st)(p \<mapsto> pn\<lparr>childNodes := childNodes pn @ [c]\<rparr>,
                        c \<mapsto> cn\<lparr>parentNode := Some p\<rparr>)"
    and "next_ref (appendChild p c st) = next_ref st"
    and "created_log (appendChild p c st) = created_log st"
    and "mstate (appendChild p c st) = mstate st"
  using assms by (auto simp: appendChild_def detach_def Let_def)

lemma invokeCreate_frame:
  "nodes (invokeCreate ms i r v st) = nodes st \<and> next_ref (invokeCreate ms i r v st) = next_ref st"
  by (induction ms i r v st rule: invokeCreate.induct) auto

lemma invokeCreate_log:
  "created_log (invokeCreate ms i r v st)
     = created_log st @ map (\<lambda>j. (j, r)) [i ..< i + length ms]"
proof (induction ms i r v st rule: invokeCreate.induct)
  case (1 i r v st)
  show ?case by simp
next
  case (2 m ms i r v st)
  have "[i ..< i + length (m # ms)] = i # [Suc i ..< Suc i + length ms]"
    by (subst upt_rec) simp
  with 2 show ?case by simp
qed

lemma invokeCreate_mstate:
  "mstate (invokeCreate ms i r v st) = fold (\<lambda>x. onCreate x r v) ms (mstate st)"
  by (induction ms i r v st rule: invokeCreate.induct) auto

lemma mirrored_agree:
  "(\<And>r. r \<in> set (host_refs v) \<Longrightarrow> ns' r = ns r) \<Longrightarrow> mirrored ns' q v = mirrored ns q v"
proof (induction v arbitrary: q)
  case (VNode s d ch t e h)
  show ?case
  proof (cases e)
    case None
    then show ?thesis by simp
  next
    case (Some r)
    have r: "ns' r = ns r"
      using VNode.prems [of r] Some by simp
    have kids: "list_all (mirrored ns' (Some r)) ch = list_all (mirrored ns (Some r)) ch"
    proof (rule list.pred_cong [OF refl])
      fix c assume c: "c \<in> set ch"
      show "mirrored ns' (Some r) c = mirrored ns (Some r) c"
        by (rule VNode.IH [OF c]) (use VNode.prems c Some in auto)
    qed
    show ?thesis
      using Some r kids by (simp split: option.splits)
  qed
qed

lemma store_ok_lt: "store_ok st \<Longrightarrow> nodes st p = Some pn \<Longrightarrow> p < next_ref st"
  by (auto simp: store_ok_def)

lemma store_ok_alloc:
  assumes "store_ok st" and "nodes st' = (nodes st)(next_ref st \<mapsto> x)"
    and "next_ref st' = Suc (next_ref st)"
  shows "store_ok st'"
  unfolding store_ok_def
proof
  fix r assume "r \<in> dom (nodes st')"
  with assms(2) have "r = next_ref st \<or> r \<in> dom (nodes st)"
    by (auto split: if_splits)
  then show "r < next_ref st'"
  proof
    assume "r = next_ref st"
    with assms(3) show ?thesis by simp
  next
    assume "r \<in> dom (nodes st)"
    with assms(1) have "r < next_ref st"
      unfolding store_ok_def by blast
    with assms(3) show ?thesis by simp
  qed
qed

lemma elm_post_text:
  assumes ok: "store_ok st" and cr: "createTextNode txt st = (r, st1)"
    and tx: "txt = (case t of None \<Rightarrow> [] | Some x \<Rightarrow> x)"
  shows "elm_post ms st (VNode None d [] t e h) (VNode None d [] t (Some r) h) st1"
proof -
  note c = createTextNode_simps [OF cr]
  have "store_ok st1"
    using ok c by (auto intro: store_ok_alloc)
  moreover have "\<forall>r' < next_ref st. nodes st1 r' = nodes st r'"
    using c by simp
  moreover have "mirrored (nodes st1) None (VNode None d [] t (Some r) h)"
    using c tx by simp
  moreover have "host_refs (VNode None d [] t (Some r) h) = [next_ref st ..< next_ref st1]"
    using c by (simp add: upt_rec)
  ultimately show ?thesis
    using c by (simp add: elm_post_def)
qed

lemma mirrored_reparent:
  assumes m: "mirrored ns None v" and e: "elm v = Some r" and hn: "ns r = Some hn"
    and rn: "r \<notin> set (concat (map host_refs (children v)))"
    and pn: "p \<notin> set (host_refs v)"
  shows "mirrored (ns(p \<mapsto> x, r \<mapsto> hn\<lparr>parentNode := Some p\<rparr>)) (Some p) v"
proof (cases v)
  case (VNode s d ch t e' h)
  let ?ns' = "ns(p \<mapsto> x, r \<mapsto> hn\<lparr>parentNode := Some p\<rparr>)"
  from VNode e have e': "e' = Some r" by simp
  have kids: "list_all (mirrored ?ns' (Some r)) ch = list_all (mirrored ns (Some r)) ch"
  proof (rule list.pred_cong [OF refl])
    fix c assume c: "c \<in> set ch"
    show "mirrored ?ns' (Some r) c = mirrored ns (Some r) c"
    proof (rule mirrored_agree)
      fix q assume q: "q \<in> set (host_refs c)"
      with c rn VNode have "q \<noteq> r" by auto
      moreover from q c pn VNode have "q \<noteq> p" by auto
      ultimately show "?ns' q = ns q" by simp
    qed
  qed
  from m VNode e' hn kids show ?thesis
    by simp
qed

lemma elm_post_element:
  assumes ok: "store_ok st" and cr: "createElement tag st = (r, st1)"
    and kp: "kids_post ms st1 r \<lparr>tagName = Some tag, nodeValue = [], childNodes = [], parentNode = None\<rparr>
               ch ch' st2"
  shows "elm_post ms st (VNode (Some tag) d ch t e h) (VNode (Some tag) d ch' t (Some r) h)
           (invokeCreate ms 0 r (VNode (Some tag) d ch' t (Some r) h) st2)"
proof -
  let ?v' = "VNode (Some tag) d ch' t (Some r) h"
  let ?st' = "invokeCreate ms 0 r ?v' st2"
  note c = createElement_simps [OF cr]
  from c have r: "r = next_ref st" and n1: "next_ref st1 = Suc r" by simp_all
  from kp have le: "next_ref st1 \<le> next_ref st2" and ok2: "store_ok st2"
    and ub: "map unbound ch' = map unbound ch" and pop: "list_all populated ch'"
    and refs: "concat (map host_refs ch') = [next_ref st1 ..< next_ref st2]"
    and frame: "\<forall>q < next_ref st1. q \<noteq> r \<longrightarrow> nodes st2 q = nodes st1 q"
    and mir: "list_all (mirrored (nodes st2) (Some r)) ch'"
    and log: "created_log st2 = created_log st1 @ concat (map (owed_hooks (length ms)) ch')"
    and ms2: "mstate st2 = fold (hooks_effect ms) ch' (mstate st1)"
    by (simp_all add: kids_post_def)
  from kp obtain ks where p: "nodes st2 r
        = Some \<lparr>tagName = Some tag, nodeValue = [], childNodes = ks, parentNode = None\<rparr>"
    and ks: "map elm ch' = map Some ks"
    by (auto simp: kids_post_def)
  have nd: "nodes ?st' = nodes st2" and nx: "next_ref ?st' = next_ref st2"
    by (simp_all add: invokeCreate_frame)
  have 1: "next_ref st < next_ref ?st'"
    using le n1 r nx by simp
  have 2: "store_ok ?st'"
    using ok2 nd nx by (simp add: store_ok_def)
  have 3: "host_refs ?v' = [next_ref st ..< next_ref ?st']"
  proof -
    have "r < next_ref st2" using le n1 by simp
    then have "[r ..< next_ref st2] = r # [Suc r ..< next_ref st2]"
      by (rule upt_conv_Cons)
    with refs n1 r nx show ?thesis by simp
  qed
  have 4: "\<forall>q < next_ref st. nodes ?st' q = nodes st q"
    using frame c nd by auto
  have 5: "mirrored (nodes ?st') None ?v'"
    using p ks mir nd by simp
  have 6: "created_log ?st' = created_log st @ owed_hooks (length ms) ?v'"
    using log c by (simp add: invokeCreate_log)
  have 7: "mstate ?st' = hooks_effect ms ?v' (mstate st)"
    using ms2 c by (simp add: invokeCreate_mstate)
  show ?thesis
    unfolding elm_post_def using 1 2 3 4 5 6 7 ub pop r by simp
qed

lemma kids_post_nil:
  "nodes st p = Some pn \<Longrightarrow> store_ok st \<Longrightarrow> kids_post ms st p pn [] [] st"
  by (simp add: kids_post_def)

lemma host_refs_root:
  "elm v = Some r \<Longrightarrow> host_refs v = r # concat (map host_refs (children v))"
  by (cases v) simp

lemma mirrored_root:
  "mirrored ns q v \<Longrightarrow> elm v = Some r \<Longrightarrow> \<exists>hn. ns r = Some hn \<and> parentNode hn = q"
  by (cases v) (auto split: option.splits)

lemma kids_post_cons:
  assumes ok: "store_ok st" and p: "nodes st p = Some pn"
    and ep: "elm_post ms st c c' st1"
    and kp: "kids_post ms (appendChild p (next_ref st) st1) p
               (pn\<lparr>childNodes := childNodes pn @ [next_ref st]\<rparr>) cs cs' st3"
  shows "kids_post ms st p pn (c # cs) (c' # cs') st3"
proof -
  let ?rc = "next_ref st"
  let ?st2 = "appendChild p ?rc st1"
  from ep have lt1: "?rc < next_ref st1" and ok1: "store_ok st1" and e: "elm c' = Some ?rc"
    and ub1: "unbound c' = unbound c" and pop1: "populated c'"
    and refs1: "host_refs c' = [?rc ..< next_ref st1]"
    and frame1: "\<forall>q < ?rc. nodes st1 q = nodes st q"
    and mir1: "mirrored (nodes st1) None c'"
    and log1: "created_log st1 = created_log st @ owed_hooks (length ms) c'"
    and ms1: "mstate st1 = hooks_effect ms c' (mstate st)"
    by (simp_all add: elm_post_def)
  from ok p have plt: "p < ?rc" by (rule store_ok_lt)
  with frame1 p have p1: "nodes st1 p = Some pn" by simp
  from mir1 e obtain hn where hn: "nodes st1 ?rc = Some hn" and par: "parentNode hn = None"
    by (blast dest: mirrored_root)
  from plt have ne: "p \<noteq> ?rc" by simp
  note ap = appendChild_fresh [OF p1 hn par ne]
  from kp have le3: "next_ref ?st2 \<le> next_ref st3" and ok3: "store_ok st3"
    and ub3: "map unbound cs' = map unbound cs" and pop3: "list_all populated cs'"
    and refs3: "concat (map host_refs cs') = [next_ref ?st2 ..< next_ref st3]"
    and frame3: "\<forall>q < next_ref ?st2. q \<noteq> p \<longrightarrow> nodes st3 q = nodes ?st2 q"
    and mir3: "list_all (mirrored (nodes st3) (Some p)) cs'"
    and log3: "created_log st3 = created_log ?st2 @ concat (map (owed_hooks (length ms)) cs')"
    and ms3: "mstate st3 = fold (hooks_effect ms) cs' (mstate ?st2)"
    by (simp_all add: kids_post_def)
  from kp obtain ks where p3: "nodes st3 p
        = Some (pn\<lparr>childNodes := childNodes pn @ ?rc # ks\<rparr>)"
    and ks: "map elm cs' = map Some ks"
    by (auto simp: kids_post_def)
  have a: "next_ref st \<le> next_ref st3"
    using lt1 le3 ap(2) by simp
  have e': "concat (map host_refs (c' # cs')) = [?rc ..< next_ref st3]"
  proof -
    from le3 ap(2) obtain k where k: "next_ref st3 = next_ref st1 + k"
      by (auto simp: le_iff_add)
    have "[?rc ..< next_ref st3] = [?rc ..< next_ref st1] @ [next_ref st1 ..< next_ref st3]"
      unfolding k using lt1 by (intro upt_add_eq_append) simp
    with refs1 refs3 ap(2) show ?thesis by simp
  qed
  have f: "\<forall>q < ?rc. q \<noteq> p \<longrightarrow> nodes st3 q = nodes st q"
  proof (intro allI impI)
    fix q assume q: "q < ?rc" and qp: "q \<noteq> p"
    with lt1 ap(2) frame3 have "nodes st3 q = nodes ?st2 q" by simp
    also from q qp have "\<dots> = nodes st1 q" by (simp add: ap(1))
    also from q frame1 have "\<dots> = nodes st q" by simp
    finally show "nodes st3 q = nodes st q" .
  qed
  have g: "\<exists>ks'. nodes st3 p = Some (pn\<lparr>childNodes := childNodes pn @ ks'\<rparr>)
                \<and> map elm (c' # cs') = map Some ks'"
    using p3 ks e by (intro exI [of _ "?rc # ks"]) simp
  have h: "mirrored (nodes st3) (Some p) c'"
  proof -
    from refs1 host_refs_root [OF e]
    have "?rc # concat (map host_refs (children c')) = [?rc ..< next_ref st1]" by simp
    then have "distinct (?rc # concat (map host_refs (children c')))" by simp
    then have rn: "?rc \<notin> set (concat (map host_refs (children c')))" by simp
    from refs1 plt have pn': "p \<notin> set (host_refs c')" by simp
    have m2: "mirrored (nodes ?st2) (Some p) c'"
      unfolding ap(1) by (rule mirrored_reparent [OF mir1 e hn rn pn'])
    have "mirrored (nodes st3) (Some p) c' = mirrored (nodes ?st2) (Some p) c'"
    proof (rule mirrored_agree)
      fix q assume "q \<in> set (host_refs c')"
      with refs1 plt have "q < next_ref ?st2" and "q \<noteq> p" by (simp_all add: ap(2))
      with frame3 show "nodes st3 q = nodes ?st2 q" by simp
    qed
    with m2 show ?thesis by simp
  qed
  have i: "created_log st3 = created_log st @ concat (map (owed_hooks (length ms)) (c' # cs'))"
    using log3 log1 ap(3) by simp
  have j: "mstate st3 = fold (hooks_effect ms) (c' # cs') (mstate st)"
    using ms3 ms1 ap(4) by simp
  show ?thesis
    unfolding kids_post_def using a ok3 ub1 ub3 pop1 pop3 e' f g h mir3 i j by simp
qed

lemma append_after_create:
  assumes ok: "store_ok st" and p: "nodes st p = Some pn"
    and ep: "elm_post ms st c c' st1"
  shows "store_ok (appendChild p (next_ref st) st1)"
    and "nodes (appendChild p (next_ref st) st1) p
           = Some (pn\<lparr>childNodes := childNodes pn @ [next_ref st]\<rparr>)"
proof -
  let ?rc = "next_ref st"
  from ep have ok1: "store_ok st1" and e: "elm c' = Some ?rc"
    and frame1: "\<forall>q < ?rc. nodes st1 q = nodes st q"
    and mir1: "mirrored (nodes st1) None c'"
    by (simp_all add: elm_post_def)
  from ok p have plt: "p < ?rc" by (rule store_ok_lt)
  with frame1 p have p1: "nodes st1 p = Some pn" by simp
  from mir1 e obtain hn where hn: "nodes st1 ?rc = Some hn" and par: "parentNode hn = None"
    by (blast dest: mirrored_root)
  from plt have ne: "p \<noteq> ?rc" by simp
  note ap = appendChild_fresh [OF p1 hn par ne]
  have "dom (nodes (appendChild p ?rc st1)) = dom (nodes st1)"
    using p1 hn by (auto simp: ap(1))
  with ok1 ap(2) show "store_ok (appendChild p ?rc st1)"
    by (simp add: store_ok_def)
  from ne show "nodes (appendChild p ?rc st1) p
           = Some (pn\<lparr>childNodes := childNodes pn @ [?rc]\<rparr>)"
    by (simp add: ap(1))
qed

lemma createElm_post:
  "store_ok st \<Longrightarrow> well_formed v \<Longrightarrow>
     elm_post ms st v (fst (createElm ms v st)) (snd (createElm ms v st))"
  and createChildren_post:
  "store_ok st \<Longrightarrow> list_all well_formed ch \<Longrightarrow>
     (\<forall>pn. nodes st p = Some pn \<longrightarrow>
        kids_post ms st p pn ch (fst (createChildren ms p ch st))
          (snd (createChildren ms p ch st)))"
proof (induction ms v st and ms p ch st rule: createElm_createChildren.induct)
  case (1 ms s d ch t e h st)
  show ?case
  proof (cases s)
    case None
    with "1.prems" have ch: "ch = []" by simp
    obtain r st1 where cr: "createTextNode (case t of None \<Rightarrow> [] | Some x \<Rightarrow> x) st = (r, st1)"
      by force
    from elm_post_text [OF "1.prems"(1) cr refl, of ms d e h]
    show ?thesis
      by (simp add: None ch cr)
  next
    case (Some tag)
    obtain r st1 where cr: "createElement tag st = (r, st1)"
      by force
    note c = createElement_simps [OF cr]
    from "1.prems"(1) c have ok1: "store_ok st1"
      by (auto intro: store_ok_alloc)
    from "1.prems"(2) have wf: "list_all well_formed ch"
      by simp
    from c have fresh: "nodes st1 r
        = Some \<lparr>tagName = Some tag, nodeValue = [], childNodes = [], parentNode = None\<rparr>"
      by simp
    obtain ch' st2 where cc: "createChildren ms r ch st1 = (ch', st2)"
      by force
    from "1.IH" [OF Some refl cr [symmetric] ok1 wf] fresh cc
    have "kids_post ms st1 r
            \<lparr>tagName = Some tag, nodeValue = [], childNodes = [], parentNode = None\<rparr>
            ch ch' st2"
      by simp
    from elm_post_element [OF "1.prems"(1) cr this, of d t e h]
    show ?thesis
      by (simp add: Some cr cc Let_def)
  qed
next
  case (2 ms p st)
  then show ?case
    by (simp add: kids_post_nil)
next
  case (3 ms p c cs st)
  show ?case
  proof (intro allI impI)
    fix pn assume p: "nodes st p = Some pn"
    obtain c' st1 where ce: "createElm ms c st = (c', st1)"
      by force
    from "3.prems" have wfc: "well_formed c" and wfs: "list_all well_formed cs"
      by simp_all
    from "3.IH"(1) [OF "3.prems"(1) wfc] ce have ep: "elm_post ms st c c' st1"
      by simp
    then have e: "elm c' = Some (next_ref st)"
      by (simp add: elm_post_def)
    let ?st2 = "appendChild p (next_ref st) st1"
    note aa = append_after_create [OF "3.prems"(1) p ep]
    obtain cs' st3 where cc: "createChildren ms p cs ?st2 = (cs', st3)"
      by force
    have st2: "?st2 = (case elm c' of None \<Rightarrow> st1 | Some r \<Rightarrow> appendChild p r st1)"
      by (simp add: e)
    from "3.IH"(2) [OF refl ce [symmetric] st2 aa(1) wfs] aa(2) cc
    have "kids_post ms ?st2 p (pn\<lparr>childNodes := childNodes pn @ [next_ref st]\<rparr>) cs cs' st3"
      by simp
    from kids_post_cons [OF "3.prems"(1) p ep this]
    show "kids_post ms st p pn (c # cs) (fst (createChildren ms p (c # cs) st))
            (snd (createChildren ms p (c # cs) st))"
      by (simp add: ce e cc)
  qed
qed



lemma patch_bare_host_post:
  assumes ok: "store_ok st" and cont: "nodes st c = Some cn"
    and wf: "list_all well_formed (children v)"
  obtains v' st'
  where "patch_bare_host ms c v st = Inr (v', st')"
    and "unbound v' = unbound v" and "elm v' = Some c" and "populated v'"
    and "concat (map host_refs (children v')) = [next_ref st ..< next_ref st']"
    and "list_all (mirrored (nodes st') (Some c)) (children v')"
    and "\<exists>ks. nodes st' c = Some (cn\<lparr>childNodes := childNodes cn @ ks\<rparr>)
              \<and> map elm (children v') = map Some ks"
    and "\<forall>q < next_ref st. q \<noteq> c \<longrightarrow> nodes st' q = nodes st q"
    and "created_log st' = created_log st @ concat (map (owed_hooks (length ms)) (children v'))
           @ map (\<lambda>i. (i, c)) [0 ..< length ms]"
    and "mstate st' = fold (\<lambda>x. onCreate x c v') ms
                        (fold (hooks_effect ms) (children v') (mstate st))"
proof -
  obtain ch' st1 where cc: "createChildren ms c (children v) st = (ch', st1)"
    by force
  let ?v' = "VNode (sel v) (data v) ch' (text_V v) (Some c) (isHost v)"
  let ?st' = "invokeCreate ms 0 c ?v' st1"
  from createChildren_post [OF ok wf, of c ms] cont cc
  have kp: "kids_post ms st c cn (children v) ch' st1"
    by simp
  have res: "patch_bare_host ms c v st = Inr (?v', ?st')"
    by (simp add: patch_bare_host_def cont cc Let_def)
  have nd: "nodes ?st' = nodes st1" and nx: "next_ref ?st' = next_ref st1"
    by (simp_all add: invokeCreate_frame)
  show thesis
  proof (rule that [OF res])
    from kp show "unbound ?v' = unbound v"
      by (cases v) (simp add: kids_post_def)
    show "elm ?v' = Some c"
      by simp
    from kp show "populated ?v'"
      by (simp add: kids_post_def)
    from kp show "concat (map host_refs (children ?v')) = [next_ref st ..< next_ref ?st']"
      by (simp add: kids_post_def nx)
    from kp show "list_all (mirrored (nodes ?st') (Some c)) (children ?v')"
      by (simp add: kids_post_def nd)
    from kp show "\<exists>ks. nodes ?st' c = Some (cn\<lparr>childNodes := childNodes cn @ ks\<rparr>)
              \<and> map elm (children ?v') = map Some ks"
      by (simp add: kids_post_def nd)
    from kp show "\<forall>q < next_ref st. q \<noteq> c \<longrightarrow> nodes ?st' q = nodes st q"
      by (simp add: kids_post_def nd)
    from kp show "created_log ?st' = created_log st
           @ concat (map (owed_hooks (length ms)) (children ?v'))
           @ map (\<lambda>i. (i, c)) [0 ..< length ms]"
      by (simp add: kids_post_def invokeCreate_log)
    from kp show "mstate ?st' = fold (\<lambda>x. onCreate x c ?v') ms
                        (fold (hooks_effect ms) (children ?v') (mstate st))"
      by (simp add: kids_post_def invokeCreate_mstate)
  qed
qed

lemma beforeRender_renderer:
  assumes "beforeRender env el w = Calls el1 w1 r hv"
  shows "r = (case renderer_S el of None \<Rightarrow> initRenderer env registered | Some r' \<Rightarrow> r')"
proof -
  from assms have "ensureRenderer env el w = (el1, w1, r)"
    by (auto elim: beforeRender_Calls)
  then show ?thesis
    by (auto simp: ensureRenderer_def Let_def split: option.splits)
qed

text \<open>
  Claim C7. On a first render the element retains no virtual node, and its renderer, if
  it has one yet, is the one \<^verbatim>\<open>patchElement\<close> builds with \<^verbatim>\<open>initRenderer\<close> from the four
  modules it registers. \<^verbatim>\<open>patchElement\<close> then hands that renderer the bare host element in
  place of an old tree. When that renderer performs the engine's step 1 on a bare host
  with the registered modules (\<open>impl\<close> gives the hooks of each), the host element is a
  node of a host tree that hands out fresh references, and the render function's children
  are well formed (only elements have children), \<^verbatim>\<open>patchElement\<close> returns normally and
  retains in \<^verbatim>\<open>_vnode\<close> the tree the engine returns: the new tree with its shape unchanged
  and a host reference on every node, the root's being the host element. The references
  below the root are fresh and consecutive in creation order, so every host node of the
  subtree is made from scratch; the host tree under the host element mirrors the virtual
  tree, the new children come after the children the host element had, and no other host
  node that was there before has changed. The module state is the one the
  \<^verbatim>\<open>onCreate\<close> hooks of the four registered modules make of it, applied in registration
  order to every element created, children before their parent, and last to the root on
  the host element; the log lists the same hooks in the same order.
\<close>

theorem first_render_creates_subtree:
  assumes first: "vnode_S el = None"
    and own: "renderer_S el = None \<or> renderer_S el = Some (initRenderer env registered)"
    and reach: "beforeRender env el st = Calls el1 st1 r hv"
    and engine: "\<And>c v s x. patch_bare_host (map impl registered) c v s = Inr x
                   \<Longrightarrow> initRenderer env registered (HostElm c) v s = x"
    and ok: "store_ok st1" and host: "nodes st1 (ref el) = Some cn"
    and wf: "list_all well_formed (children hv)"
  shows "\<exists>v' st'. r = initRenderer env registered
           \<and> patchElement env el st = Inr (el1\<lparr>vnode_S := Some v'\<rparr>, st')
           \<and> patch_bare_host (map impl registered) (ref el) hv st1 = Inr (v', st')
           \<and> unbound v' = unbound hv \<and> elm v' = Some (ref el) \<and> populated v'
           \<and> concat (map host_refs (children v')) = [next_ref st1 ..< next_ref st']
           \<and> list_all (mirrored (nodes st') (Some (ref el))) (children v')
           \<and> (\<exists>ks. nodes st' (ref el) = Some (cn\<lparr>childNodes := childNodes cn @ ks\<rparr>)
                    \<and> map elm (children v') = map Some ks)
           \<and> (\<forall>q < next_ref st1. q \<noteq> ref el \<longrightarrow> nodes st' q = nodes st1 q)
           \<and> mstate st' = fold (\<lambda>x. onCreate x (ref el) v') (map impl registered)
                 (fold (hooks_effect (map impl registered)) (children v') (mstate st1))
           \<and> created_log st' = created_log st1
                @ concat (map (owed_hooks (length registered)) (children v'))
                @ map (\<lambda>i. (i, ref el)) [0 ..< length registered]"
proof -
  let ?ms = "map impl registered"
  from reach have "ref el1 = ref el" and "vnode_S el1 = vnode_S el"
    by (auto elim: beforeRender_Calls)
  with first have old: "oldArg el1 = HostElm (ref el)"
    by (simp add: oldArg_def)
  from own beforeRender_renderer [OF reach] have r: "r = initRenderer env registered"
    by auto
  from ok host wf obtain v' st'
    where res: "patch_bare_host ?ms (ref el) hv st1 = Inr (v', st')"
      and post: "unbound v' = unbound hv" "elm v' = Some (ref el)" "populated v'"
        "concat (map host_refs (children v')) = [next_ref st1 ..< next_ref st']"
        "list_all (mirrored (nodes st') (Some (ref el))) (children v')"
        "\<exists>ks. nodes st' (ref el) = Some (cn\<lparr>childNodes := childNodes cn @ ks\<rparr>)
              \<and> map elm (children v') = map Some ks"
        "\<forall>q < next_ref st1. q \<noteq> ref el \<longrightarrow> nodes st' q = nodes st1 q"
      and log: "created_log st' = created_log st1
           @ concat (map (owed_hooks (length ?ms)) (children v'))
           @ map (\<lambda>i. (i, ref el)) [0 ..< length ?ms]"
      and eff: "mstate st' = fold (\<lambda>x. onCreate x (ref el) v') ?ms
                        (fold (hooks_effect ?ms) (children v') (mstate st1))"
    by (rule patch_bare_host_post [where ms = ?ms])
  from engine [OF res] r have "r (HostElm (ref el)) hv st1 = (v', st')"
    by simp
  with reach old have p: "patchElement env el st = Inr (el1\<lparr>vnode_S := Some v'\<rparr>, st')"
    by (simp add: patchElement_def)
  from log have log': "created_log st' = created_log st1
                @ concat (map (owed_hooks (length registered)) (children v'))
                @ map (\<lambda>i. (i, ref el)) [0 ..< length registered]"
    by simp
  from r p res post eff log' show ?thesis
    by blast
qed

theorem first_render_creates_subtree_witness:
  "vnode_S list_elm = None \<and> renderer_S list_elm = None
   \<and> store_ok container_only
   \<and> nodes container_only (ref list_elm)
        = Some \<lparr>tagName = Some ''my-list'', nodeValue = [], childNodes = [], parentNode = None\<rparr>
   \<and> (\<exists>r hv v' st'.
          beforeRender list_env list_elm container_only
            = Calls (list_elm\<lparr>renderer_S := Some r\<rparr>) container_only r hv
        \<and> r = step1_renderer (map recorder registered)
        \<and> list_all well_formed (children hv)
        \<and> patchElement list_env list_elm container_only
            = Inr (list_elm\<lparr>renderer_S := Some r, vnode_S := Some v'\<rparr>, st')
        \<and> unbound v' = unbound hv \<and> elm v' = Some 0 \<and> populated v'
        \<and> concat (map host_refs (children v')) = [1, 2, 3, 4]
        \<and> list_all (mirrored (nodes st') (Some 0)) (children v')
        \<and> map (\<lambda>q. map_option childNodes (nodes st' q)) [0, 1, 2, 3, 4]
             = [Some [1], Some [2, 4], Some [3], Some [], Some []]
        \<and> mstate st'
             = [(attributesModule, 2), (classModule, 2), (eventListenersModule, 2),
                (styleModule, 2),
                (attributesModule, 4), (classModule, 4), (eventListenersModule, 4),
                (styleModule, 4),
                (attributesModule, 1), (classModule, 1), (eventListenersModule, 1),
                (styleModule, 1),
                (attributesModule, 0), (classModule, 0), (eventListenersModule, 0),
                (styleModule, 0)]
        \<and> created_log st'
             = [(0, 2), (1, 2), (2, 2), (3, 2), (0, 4), (1, 4), (2, 4), (3, 4),
                (0, 1), (1, 1), (2, 1), (3, 1), (0, 0), (1, 0), (2, 0), (3, 0)])"
proof -
  let ?ms = "map recorder registered"
  let ?r = "step1_renderer ?ms"
  have first: "vnode_S list_elm = None" and r0: "ref list_elm = 0"
    and nor: "renderer_S list_elm = None"
    by (simp_all add: list_elm_def)
  have ir: "initRenderer list_env registered = ?r"
    by (simp add: list_env_def)
  obtain hv where b: "beforeRender list_env list_elm container_only
            = Calls (list_elm\<lparr>renderer_S := Some ?r\<rparr>) container_only ?r hv"
    by (simp add: beforeRender_def ensureRenderer_def list_env_def list_elm_def hostVnode_def
          getValue_def Let_def set_isHost_def set_elm_def)
  have ch: "children hv = [two_items]"
    using beforeRender_children [OF b] by (auto simp: list_env_def)
  have engine: "patch_bare_host ?ms c v s = Inr x
                  \<Longrightarrow> initRenderer list_env registered (HostElm c) v s = x" for c v s x
    by (simp add: ir step1_renderer_def)
  have ok: "store_ok container_only"
    by (simp add: store_ok_def container_only_def)
  have host: "nodes container_only (ref list_elm)
        = Some \<lparr>tagName = Some ''my-list'', nodeValue = [], childNodes = [], parentNode = None\<rparr>"
    by (simp add: container_only_def r0)
  have wf: "list_all well_formed (children hv)"
    by (simp add: ch two_items_def)
  have ev: "(case patch_bare_host ?ms 0 hv container_only of
      Inl err \<Rightarrow> False
    | Inr (v', st') \<Rightarrow> next_ref st' = 5
        \<and> map (\<lambda>q. map_option childNodes (nodes st' q)) [0, 1, 2, 3, 4]
             = [Some [1], Some [2, 4], Some [3], Some [], Some []]
        \<and> mstate st'
             = [(attributesModule, 2), (classModule, 2), (eventListenersModule, 2),
                (styleModule, 2),
                (attributesModule, 4), (classModule, 4), (eventListenersModule, 4),
                (styleModule, 4),
                (attributesModule, 1), (classModule, 1), (eventListenersModule, 1),
                (styleModule, 1),
                (attributesModule, 0), (classModule, 0), (eventListenersModule, 0),
                (styleModule, 0)]
        \<and> created_log st'
             = [(0, 2), (1, 2), (2, 2), (3, 2), (0, 4), (1, 4), (2, 4), (3, 4),
                (0, 1), (1, 1), (2, 1), (3, 1), (0, 0), (1, 0), (2, 0), (3, 0)])"
    by (simp add: patch_bare_host_def ch two_items_def container_only_def recorder_def
         registered_def createElement_def createTextNode_def appendChild_def detach_def
         Let_def)
  have n1: "next_ref container_only = 1"
    by (simp add: container_only_def)
  have upt: "[1 ..< 5] = [1, 2, 3, 4::nat]"
    by (simp add: upt_rec)
  from first_render_creates_subtree
         [where impl = recorder, OF first disjI1 [OF nor] b engine ok host wf]
  obtain v' st' where
    p: "patchElement list_env list_elm container_only
            = Inr (list_elm\<lparr>renderer_S := Some ?r, vnode_S := Some v'\<rparr>, st')"
    and res: "patch_bare_host ?ms 0 hv container_only = Inr (v', st')"
    and rest: "unbound v' = unbound hv" "elm v' = Some 0" "populated v'"
      "concat (map host_refs (children v')) = [1 ..< next_ref st']"
      "list_all (mirrored (nodes st') (Some 0)) (children v')"
    by (auto simp: r0 n1)
  from ev res have "next_ref st' = 5"
    and "map (\<lambda>q. map_option childNodes (nodes st' q)) [0, 1, 2, 3, 4]
             = [Some [1], Some [2, 4], Some [3], Some [], Some []]"
    and "mstate st'
             = [(attributesModule, 2), (classModule, 2), (eventListenersModule, 2),
                (styleModule, 2),
                (attributesModule, 4), (classModule, 4), (eventListenersModule, 4),
                (styleModule, 4),
                (attributesModule, 1), (classModule, 1), (eventListenersModule, 1),
                (styleModule, 1),
                (attributesModule, 0), (classModule, 0), (eventListenersModule, 0),
                (styleModule, 0)]"
    and "created_log st'
             = [(0, 2), (1, 2), (2, 2), (3, 2), (0, 4), (1, 4), (2, 4), (3, 4),
                (0, 1), (1, 1), (2, 1), (3, 1), (0, 0), (1, 0), (2, 0), (3, 0)]"
    by simp_all
  with p rest upt wf b have "\<exists>r hv v' st'.
          beforeRender list_env list_elm container_only
            = Calls (list_elm\<lparr>renderer_S := Some r\<rparr>) container_only r hv
        \<and> r = step1_renderer (map recorder registered)
        \<and> list_all well_formed (children hv)
        \<and> patchElement list_env list_elm container_only
            = Inr (list_elm\<lparr>renderer_S := Some r, vnode_S := Some v'\<rparr>, st')
        \<and> unbound v' = unbound hv \<and> elm v' = Some 0 \<and> populated v'
        \<and> concat (map host_refs (children v')) = [1, 2, 3, 4]
        \<and> list_all (mirrored (nodes st') (Some 0)) (children v')
        \<and> map (\<lambda>q. map_option childNodes (nodes st' q)) [0, 1, 2, 3, 4]
             = [Some [1], Some [2, 4], Some [3], Some [], Some []]
        \<and> mstate st'
             = [(attributesModule, 2), (classModule, 2), (eventListenersModule, 2),
                (styleModule, 2),
                (attributesModule, 4), (classModule, 4), (eventListenersModule, 4),
                (styleModule, 4),
                (attributesModule, 1), (classModule, 1), (eventListenersModule, 1),
                (styleModule, 1),
                (attributesModule, 0), (classModule, 0), (eventListenersModule, 0),
                (styleModule, 0)]
        \<and> created_log st'
             = [(0, 2), (1, 2), (2, 2), (3, 2), (0, 4), (1, 4), (2, 4), (3, 4),
                (0, 1), (1, 1), (2, 1), (3, 1), (0, 0), (1, 0), (2, 0), (3, 0)]"
    by (intro exI [of _ ?r] exI [of _ hv] exI [of _ v'] exI [of _ st']) simp
  with first nor ok host show ?thesis
    by blast
qed

end
